theory Spec2Isabelle
  imports Complex_Main
begin

section \<open>Gear shifting: the closest combination and the shift sequence\<close>

text \<open>
  A shallow embedding of \<^verbatim>\<open>gearcombo.py\<close> (\<^verbatim>\<open>compute_combo\<close>) and of
  \<^verbatim>\<open>shiftseq.py\<close> (the table \<^verbatim>\<open>_combos\<close>, \<^verbatim>\<open>find_next\<close>, \<^verbatim>\<open>generate_shifts\<close>).

  Conventions of the model:
  \<^item> Python integers (tooth counts, table indexes) are \<open>int\<close>.
  \<^item> A gear ratio is a Python float, an IEEE 754 double. The model holds a finite double
    as the rational number it denotes (\<open>rat\<close>), and every float operation of the source
    (\<^verbatim>\<open>float( rear )\<close>, \<^verbatim>\<open>/\<close>, \<^verbatim>\<open>-\<close>) is the exact operation followed by
    \<open>round_double\<close>, the rounding to the nearest number with 53 significant bits, ties
    to even. Comparisons of floats are comparisons of the rationals. The exponent range
    of a double is not modelled: the quotient of two tooth counts below \<open>2 ^ 1022\<close> is in
    the normal range, and the difference of a finite target ratio and such a quotient
    does not overflow and is exact where it is subnormal. The values \<^verbatim>\<open>inf\<close> and
    \<^verbatim>\<open>nan\<close> are no values of the model.
  \<^item> The module constants \<^verbatim>\<open>_FRONT_COGS\<close> and \<^verbatim>\<open>_REAR_COGS\<close> are passed to every
    function as the parameters \<open>fronts\<close> and \<open>rears\<close>, so that a property can be stated
    for every cog set; the values the source configures are \<open>FRONT_COGS\<close> and
    \<open>REAR_COGS\<close> below. The table \<^verbatim>\<open>_combos\<close> that \<^verbatim>\<open>find_next\<close> reads is passed
    to it as \<open>combos\<close>.
  \<^item> Every exception of the source is a value of \<open>error\<close>, returned as \<open>Inl\<close>.
\<close>

subsection \<open>Constants and errors\<close>

definition FRONT_COGS :: "int list" where
  "FRONT_COGS = [38, 30]"

definition REAR_COGS :: "int list" where
  "REAR_COGS = [28, 23, 19, 16]"

text \<open>
  \<open>ValueError\<close> is the exception the source raises on purpose. \<open>UnboundLocalError\<close> is
  what Python raises when a local variable is read before it is assigned,
  \<open>TypeError\<close> what it raises for \<^verbatim>\<open>tuple + None\<close>, \<open>IndexError\<close> what a list raises
  for an index out of range.
\<close>

datatype error = ValueError | UnboundLocalError | TypeError | IndexError

text \<open>
  A cog set the module can be loaded with: building \<^verbatim>\<open>_combos\<close> divides by every rear
  tooth count, and the specification takes tooth counts to be positive.
\<close>

definition valid_cogs :: "int list \<Rightarrow> int list \<Rightarrow> bool" where
  "valid_cogs fronts rears =
     (list_all (\<lambda>front. 0 < front) fronts \<and> list_all (\<lambda>rear. 0 < rear) rears)"

subsection \<open>Python lists\<close>

text \<open>
  \<^verbatim>\<open>xs[i]\<close>: a negative index counts from the end, an index outside
  \<open>-len \<le> i < len\<close> raises IndexError.
\<close>

definition py_get :: "'a list \<Rightarrow> int \<Rightarrow> error + 'a" where
  "py_get xs i =
     (if 0 \<le> i \<and> i < int (length xs) then Inr (xs ! nat i)
      else if - int (length xs) \<le> i \<and> i < 0 then Inr (xs ! nat (i + int (length xs)))
      else Inl IndexError)"

text \<open>\<^verbatim>\<open>enumerate( xs )\<close>, counting from \<open>n\<close>.\<close>

fun enumerate_from :: "int \<Rightarrow> 'a list \<Rightarrow> (int \<times> 'a) list" where
  "enumerate_from n [] = []"
| "enumerate_from n (x # xs) = (n, x) # enumerate_from (n + 1) xs"

subsection \<open>Python floats\<close>

text \<open>The integer nearest to \<open>y\<close>; of two nearest integers the even one.\<close>

definition round_half_even :: "rat \<Rightarrow> int" where
  "round_half_even y =
     (let f = \<lfloor>y\<rfloor>; d = y - of_int f
      in if d < 1 / 2 then f else if 1 / 2 < d then f + 1 else if even f then f else f + 1)"

text \<open>
  The double nearest to a positive rational: between \<open>2 ^ 52 = 4503599627370496\<close> and
  \<open>2 ^ 53 = 9007199254740992\<close> the doubles are the integers, and scaling by a power of
  two is exact.
\<close>

function round_pos :: "rat \<Rightarrow> rat" where
  "round_pos y =
     (if y \<le> 0 then 0
      else if y < 4503599627370496 then round_pos (2 * y) / 2
      else if 9007199254740992 \<le> y then 2 * round_pos (y / 2)
      else of_int (round_half_even y))"
  by pat_completeness auto
termination
proof (relation "measure (\<lambda>y. if 9007199254740992 \<le> y then nat \<lfloor>y\<rfloor>
                               else if 0 < y \<and> y < 4503599627370496 then nat \<lceil>9007199254740992 / y\<rceil>
                               else 0)")
  show "wf (measure (\<lambda>y :: rat. if 9007199254740992 \<le> y then nat \<lfloor>y\<rfloor>
                               else if 0 < y \<and> y < 4503599627370496 then nat \<lceil>9007199254740992 / y\<rceil>
                               else 0))"
    by simp
next
  fix y :: rat
  assume a: "\<not> y \<le> 0" "y < 4503599627370496"
  let ?a = "9007199254740992 / y"
  from a have a2: "2 < ?a" by (simp add: less_divide_eq)
  have c1: "0 < \<lceil>?a\<rceil>" using a2 a by (simp add: less_ceiling_iff)
  show "(2 * y, y) \<in> measure (\<lambda>y. if 9007199254740992 \<le> y then nat \<lfloor>y\<rfloor>
                               else if 0 < y \<and> y < 4503599627370496 then nat \<lceil>9007199254740992 / y\<rceil>
                               else 0)"
  proof (cases "2 * y < 4503599627370496")
    case True
    have h: "9007199254740992 / (2 * y) = ?a / 2" by simp
    from True a have a4: "4 < ?a" by (simp add: less_divide_eq)
    have "of_int \<lceil>?a / 2\<rceil> < ?a / 2 + 1" by linarith
    also have "\<dots> < ?a" using a4 by simp
    also have "\<dots> \<le> of_int \<lceil>?a\<rceil>" by linarith
    finally have "\<lceil>?a / 2\<rceil> < \<lceil>?a\<rceil>" by simp
    with True a c1 show ?thesis by (simp add: h)
  next
    case False
    with a c1 show ?thesis by simp
  qed
next
  fix y :: rat
  assume a: "\<not> y \<le> 0" "\<not> y < 4503599627370496" "9007199254740992 \<le> y"
  have "of_int \<lfloor>y / 2\<rfloor> \<le> y / 2" by linarith
  also have "\<dots> < y - 1" using a by simp
  also have "\<dots> < of_int \<lfloor>y\<rfloor>" by linarith
  finally have lt: "\<lfloor>y / 2\<rfloor> < \<lfloor>y\<rfloor>" by simp
  have pos: "0 < \<lfloor>y\<rfloor>" using a by (simp add: less_floor_iff)
  from a have "\<not> (y / 2 < 4503599627370496)" by simp
  with lt pos a show "(y / 2, y) \<in> measure (\<lambda>y. if 9007199254740992 \<le> y then nat \<lfloor>y\<rfloor>
                               else if 0 < y \<and> y < 4503599627370496 then nat \<lceil>9007199254740992 / y\<rceil>
                               else 0)"
    by simp
qed

declare round_pos.simps [simp del]

text \<open>The double nearest to a rational.\<close>

definition round_double :: "rat \<Rightarrow> rat" where
  "round_double x = (if x < 0 then - round_pos (- x) else round_pos x)"

text \<open>\<^verbatim>\<open>float( n )\<close> for an integer, and the float operations \<^verbatim>\<open>a / b\<close> and \<^verbatim>\<open>a - b\<close>.\<close>

definition float_of_int :: "int \<Rightarrow> rat" where
  "float_of_int n = round_double (of_int n)"

definition float_div :: "rat \<Rightarrow> rat \<Rightarrow> rat" where
  "float_div a b = round_double (a / b)"

definition float_sub :: "rat \<Rightarrow> rat \<Rightarrow> rat" where
  "float_sub a b = round_double (a - b)"

subsection \<open>The ratio of a combination and the table of all ratios\<close>

text \<open>
  \<^verbatim>\<open>front / float( rear )\<close>: Python converts the integer \<^verbatim>\<open>front\<close> to a float and
  divides the two floats.
\<close>

definition gear_ratio :: "int \<Rightarrow> int \<Rightarrow> rat" where
  "gear_ratio front rear = float_div (float_of_int front) (float_of_int rear)"

text \<open>
  \<^verbatim>\<open>_combos\<close> (shiftseq.py, lines 38 to 43): one row for each front cog, one entry of
  the row for each rear cog.
\<close>

definition combos_table :: "int list \<Rightarrow> int list \<Rightarrow> rat list list" where
  "combos_table fronts rears =
     map (\<lambda>front. map (\<lambda>rear. gear_ratio front rear) rears) fronts"

text \<open>\<^verbatim>\<open>_combos[ y ][ x ]\<close>.\<close>

definition combos_at :: "rat list list \<Rightarrow> int \<Rightarrow> int \<Rightarrow> error + rat" where
  "combos_at combos y x =
     (case py_get combos y of Inl e \<Rightarrow> Inl e | Inr row \<Rightarrow> py_get row x)"

subsection \<open>\<^verbatim>\<open>compute_combo\<close> (gearcombo.py)\<close>

text \<open>
  The body of the two nested loops: the state is \<open>(min_delta, min_combo)\<close>.
\<close>

definition combo_body :: "rat \<Rightarrow> int \<Rightarrow> int \<Rightarrow> rat \<times> (int \<times> int) \<Rightarrow> rat \<times> (int \<times> int)" where
  "combo_body ratio front rear st =
     (case st of (min_delta, min_combo) \<Rightarrow>
        let current_ratio = gear_ratio front rear;
            delta = float_sub ratio current_ratio
        in if delta \<ge> 0 \<and> delta < min_delta then (delta, (front, rear))
           else (min_delta, min_combo))"

definition compute_combo :: "int list \<Rightarrow> int list \<Rightarrow> rat \<Rightarrow> error + (int \<times> int)" where
  "compute_combo fronts rears ratio =
     (if ratio \<le> 0 then Inl ValueError
      else Inr (snd (fold (\<lambda>front. fold (\<lambda>rear. combo_body ratio front rear) rears)
                       fronts (999999, (0, 0)))))"

subsection \<open>\<^verbatim>\<open>find_next\<close> (shiftseq.py)\<close>

text \<open>
  \<open>y\<close> is the index of the front cog (the row of the table), \<open>x\<close> the index of the rear
  cog. \<open>delta_x\<close> is the ratio reached by moving on the rear axis alone, \<open>delta_y\<close> the
  ratio reached by moving on the front axis alone.
\<close>

definition find_next :: "rat list list \<Rightarrow> int \<Rightarrow> int \<Rightarrow> int \<Rightarrow> int \<Rightarrow> error + (int \<times> int)" where
  "find_next combos curr_y curr_x final_y final_x =
     (let next_y = (if curr_y < final_y then curr_y + 1
                    else if curr_y > final_y then curr_y - 1
                    else curr_y);
          next_x = (if curr_x < final_x then curr_x + 1
                    else if curr_x > final_x then curr_x - 1
                    else curr_x)
      in if next_y \<noteq> curr_y \<and> next_x \<noteq> curr_x then
           (case combos_at combos curr_y next_x of
              Inl e \<Rightarrow> Inl e
            | Inr delta_x \<Rightarrow>
                (case combos_at combos next_y curr_x of
                   Inl e \<Rightarrow> Inl e
                 | Inr delta_y \<Rightarrow>
                     if delta_x < delta_y then Inr (curr_y, next_x)
                     else Inr (next_y, curr_x)))
         else Inr (next_y, next_x))"

subsection \<open>\<^verbatim>\<open>generate_shifts\<close> (shiftseq.py)\<close>

text \<open>
  The body of the two nested loops over \<^verbatim>\<open>enumerate( _FRONT_COGS )\<close> and
  \<^verbatim>\<open>enumerate( _REAR_COGS )\<close>: the state is \<open>(min_delta, origin, goal)\<close>, with \<open>None\<close>
  for Python's \<^verbatim>\<open>None\<close>.
\<close>

type_synonym scan_state = "rat \<times> (int \<times> int) option \<times> (int \<times> int) option"

definition scan_body :: "rat \<Rightarrow> int \<Rightarrow> int \<Rightarrow> int \<times> int \<Rightarrow> int \<times> int \<Rightarrow> scan_state \<Rightarrow> scan_state" where
  "scan_body ratio ifront irear fe re st =
     (case (fe, re, st) of ((findex, front), (rindex, rear), (min_delta, origin, goal)) \<Rightarrow>
        let origin' = (if front = ifront \<and> rear = irear then Some (findex, rindex)
                       else origin);
            delta = float_sub ratio (gear_ratio front rear)
        in if delta \<ge> 0 \<and> delta < min_delta then (delta, origin', Some (findex, rindex))
           else (min_delta, origin', goal))"

definition scan :: "int list \<Rightarrow> int list \<Rightarrow> rat \<Rightarrow> int \<Rightarrow> int \<Rightarrow> scan_state" where
  "scan fronts rears ratio ifront irear =
     fold (\<lambda>fe. fold (\<lambda>re. scan_body ratio ifront irear fe re) (enumerate_from 0 rears))
       (enumerate_from 0 fronts) (999999, None, None)"

text \<open>
  The distance that is left between a coordinate and the goal; it is the measure of the
  loop below.
\<close>

definition remaining :: "int \<times> int \<Rightarrow> int \<times> int \<Rightarrow> nat" where
  "remaining combo goal = nat (\<bar>fst combo - fst goal\<bar> + \<bar>snd combo - snd goal\<bar>)"

lemma find_next_remaining:
  assumes "find_next combos cy cx fy fx = Inr c" and "(cy, cx) \<noteq> (fy, fx)"
  shows "remaining c (fy, fx) < remaining (cy, cx) (fy, fx)"
  using assms
  by (auto simp: find_next_def remaining_def Let_def split: if_splits sum.splits)

text \<open>
  \<^verbatim>\<open>while combo != goal: combo = find_next( *( combo + goal ) ); sequence.append( combo )\<close>
\<close>

function shift_loop ::
  "rat list list \<Rightarrow> int \<times> int \<Rightarrow> int \<times> int \<Rightarrow> (int \<times> int) list \<Rightarrow> error + (int \<times> int) list" where
  "shift_loop combos goal combo sequence =
     (if combo \<noteq> goal then
        (case find_next combos (fst combo) (snd combo) (fst goal) (snd goal) of
           Inl e \<Rightarrow> Inl e
         | Inr combo' \<Rightarrow> shift_loop combos goal combo' (sequence @ [combo']))
      else Inr sequence)"
  by pat_completeness auto
termination
proof (relation "measure (\<lambda>(combos, goal, combo, sequence). remaining combo goal)")
  show "wf (measure (\<lambda>(combos, goal, combo, sequence). remaining combo goal))"
    by simp
next
  fix combos :: "rat list list" and goal combo :: "int \<times> int"
    and sequence :: "(int \<times> int) list" and x2 :: "int \<times> int"
  assume "combo \<noteq> goal"
    and "find_next combos (fst combo) (snd combo) (fst goal) (snd goal) = Inr x2"
  then have "remaining x2 (fst goal, snd goal) < remaining (fst combo, snd combo) (fst goal, snd goal)"
    by (intro find_next_remaining) auto
  then show "((combos, goal, x2, sequence @ [x2]), (combos, goal, combo, sequence))
      \<in> measure (\<lambda>(combos, goal, combo, sequence). remaining combo goal)"
    by simp
qed

declare shift_loop.simps [simp del]

text \<open>
  \<^verbatim>\<open>generate_shifts( ratio, ifront, irear )\<close>. The two messages for an origin that is
  not in the cog set are formatted from \<^verbatim>\<open>front\<close> and \<^verbatim>\<open>rear\<close>, which are local
  variables of the function (the targets of its \<^verbatim>\<open>for\<close> loops) and are not yet
  assigned there: evaluating the argument of \<^verbatim>\<open>raise ValueError( ... )\<close> raises
  UnboundLocalError. With \<open>goal\<close> or \<open>origin\<close> still \<^verbatim>\<open>None\<close>, \<^verbatim>\<open>origin + goal\<close>
  raises TypeError.
\<close>

definition generate_shifts ::
  "int list \<Rightarrow> int list \<Rightarrow> rat \<Rightarrow> int \<Rightarrow> int \<Rightarrow> error + (int \<times> int) list" where
  "generate_shifts fronts rears ratio ifront irear =
     (if ratio \<le> 0 then Inl ValueError
      else if ifront \<notin> set fronts then Inl UnboundLocalError
      else if irear \<notin> set rears then Inl UnboundLocalError
      else
        (case scan fronts rears ratio ifront irear of (min_delta, origin, goal) \<Rightarrow>
           if origin = goal then Inr []
           else
             (case (origin, goal) of
                (Some origin', Some goal') \<Rightarrow>
                  (case find_next (combos_table fronts rears)
                          (fst origin') (snd origin') (fst goal') (snd goal') of
                     Inl e \<Rightarrow> Inl e
                   | Inr combo \<Rightarrow>
                       shift_loop (combos_table fronts rears) goal' combo [origin', combo])
              | _ \<Rightarrow> Inl TypeError)))"

subsection \<open>Reading a step back as tooth counts\<close>

text \<open>
  \<^verbatim>\<open>main\<close> reports a step of the sequence as
  \<^verbatim>\<open>_FRONT_COGS[ step[ 0 ] ]\<close> and \<^verbatim>\<open>_REAR_COGS[ step[ 1 ] ]\<close>.
\<close>

definition combo_at :: "int list \<Rightarrow> int list \<Rightarrow> int \<times> int \<Rightarrow> error + (int \<times> int)" where
  "combo_at fronts rears step =
     (case py_get fronts (fst step) of
        Inl e \<Rightarrow> Inl e
      | Inr front \<Rightarrow> (case py_get rears (snd step) of Inl e \<Rightarrow> Inl e | Inr rear \<Rightarrow> Inr (front, rear)))"

subsection \<open>Coordinates of the grid and single shifts\<close>

text \<open>
  A grid coordinate of the specification: \<open>0 \<le> f < F\<close> and \<open>0 \<le> r < R\<close>.
\<close>

definition in_grid :: "int list \<Rightarrow> int list \<Rightarrow> int \<times> int \<Rightarrow> bool" where
  "in_grid fronts rears c =
     (0 \<le> fst c \<and> fst c < int (length fronts) \<and> 0 \<le> snd c \<and> snd c < int (length rears))"

text \<open>
  A single shift: exactly one of the two indexes changes, by exactly one.
\<close>

definition unit_step :: "int \<times> int \<Rightarrow> int \<times> int \<Rightarrow> bool" where
  "unit_step a b =
     ((\<bar>fst a - fst b\<bar> = 1 \<and> snd a = snd b) \<or> (fst a = fst b \<and> \<bar>snd a - snd b\<bar> = 1))"

text \<open>
  \<open>b\<close> is what one application of the step rule makes of \<open>a\<close> on the way to \<open>goal\<close>.
\<close>

definition step_to :: "rat list list \<Rightarrow> int \<times> int \<Rightarrow> int \<times> int \<Rightarrow> int \<times> int \<Rightarrow> bool" where
  "step_to combos goal a b = (find_next combos (fst a) (snd a) (fst goal) (snd goal) = Inr b)"

subsection \<open>The scan, cell by cell\<close>

text \<open>The origin and the goal of a state of the scan.\<close>

definition origin_of :: "scan_state \<Rightarrow> (int \<times> int) option" where
  "origin_of st = fst (snd st)"

definition goal_of :: "scan_state \<Rightarrow> (int \<times> int) option" where
  "goal_of st = snd (snd st)"

text \<open>
  The cells the two nested loops visit, in their order: every front cog with its index,
  paired with every rear cog with its index.
\<close>

definition cells :: "int list \<Rightarrow> int list \<Rightarrow> ((int \<times> int) \<times> (int \<times> int)) list" where
  "cells fronts rears = List.product (enumerate_from 0 fronts) (enumerate_from 0 rears)"

text \<open>What the scan knows about the origin and the goal it holds.\<close>

definition scan_inv :: "int list \<Rightarrow> int list \<Rightarrow> rat \<Rightarrow> int \<Rightarrow> int \<Rightarrow> scan_state \<Rightarrow> bool" where
  "scan_inv fronts rears ratio ifront irear st =
     ((case origin_of st of None \<Rightarrow> True
       | Some c \<Rightarrow> in_grid fronts rears c \<and> fronts ! nat (fst c) = ifront \<and> rears ! nat (snd c) = irear) \<and>
      (case goal_of st of None \<Rightarrow> True
       | Some c \<Rightarrow> in_grid fronts rears c \<and>
           fst st = float_sub ratio (gear_ratio (fronts ! nat (fst c)) (rears ! nat (snd c))) \<and>
           0 \<le> fst st))"

subsection \<open>The search of \<^verbatim>\<open>compute_combo\<close>, combination by combination\<close>

text \<open>
  What the search of \<^verbatim>\<open>compute_combo\<close> holds after the combinations \<open>seen\<close>, in
  their order: either nothing was accepted, or the first combination whose delta is the
  least one that is not negative.
\<close>

definition combo_inv :: "rat \<Rightarrow> (int \<times> int) list \<Rightarrow> rat \<times> (int \<times> int) \<Rightarrow> bool" where
  "combo_inv ratio seen st =
     (let delta = (\<lambda>c. float_sub ratio (gear_ratio (fst c) (snd c))) in
      (fst st = 999999 \<and> snd st = (0, 0) \<and>
         list_all (\<lambda>c. delta c < 0 \<or> 999999 \<le> delta c) seen) \<or>
      (fst st < 999999 \<and> fst st = delta (snd st) \<and> 0 \<le> fst st \<and>
         (\<exists>pre post. seen = pre @ [snd st] @ post \<and>
            list_all (\<lambda>c. delta c < 0 \<or> fst st < delta c) pre \<and>
            list_all (\<lambda>c. delta c < 0 \<or> fst st \<le> delta c) post)))"

section \<open>Properties of the float operations\<close>

text \<open>Rounding keeps the sign: a number that is not zero does not round to zero.\<close>

lemma round_pos_pos: "0 < y \<Longrightarrow> 0 < round_pos y"
proof (induction y rule: round_pos.induct)
  case (1 y)
  show ?case
  proof (cases "y < 4503599627370496")
    case True
    with "1.prems" "1.IH"(1) have "0 < round_pos (2 * y)" by simp
    with True "1.prems" show ?thesis by (simp add: round_pos.simps[of y])
  next
    case False
    show ?thesis
    proof (cases "9007199254740992 \<le> y")
      case True
      with False "1.prems" "1.IH"(2) have "0 < round_pos (y / 2)" by simp
      with True False "1.prems" show ?thesis by (simp add: round_pos.simps[of y])
    next
      case big: False
      from False have "4503599627370496 \<le> \<lfloor>y\<rfloor>" by (simp add: le_floor_iff)
      then have "0 < round_half_even y" by (simp add: round_half_even_def Let_def)
      with big False "1.prems" show ?thesis by (simp add: round_pos.simps[of y])
    qed
  qed
qed

lemma round_pos_nonpos: "y \<le> 0 \<Longrightarrow> round_pos y = 0"
  by (simp add: round_pos.simps)

lemma round_double_neg_iff: "round_double x < 0 \<longleftrightarrow> x < 0"
  using round_pos_pos[of "- x"] round_pos_pos[of x] round_pos_nonpos[of x]
  by (cases "x < 0"; cases "x = 0") (auto simp: round_double_def not_less)

text \<open>The sign of a float difference is the sign of the exact difference.\<close>

lemma float_sub_neg_iff: "float_sub a b < 0 \<longleftrightarrow> a < b"
  by (simp add: float_sub_def round_double_neg_iff)

lemma float_sub_nonneg_iff: "0 \<le> float_sub a b \<longleftrightarrow> b \<le> a"
  using float_sub_neg_iff[of a b] by linarith

text \<open>Evaluating the rounding on numerals.\<close>

lemma floor_rat_numeral_div:
  "\<lfloor>numeral a / numeral b :: rat\<rfloor> = numeral a div numeral b"
  using floor_divide_of_int_eq[of "numeral a" "numeral b", where ?'a = rat] by simp

lemmas float_eval = round_double_def round_pos.simps round_half_even_def Let_def
  floor_rat_numeral_div float_of_int_def float_div_def float_sub_def

section \<open>Properties of the step rule and of the loop\<close>

lemma combos_at_table:
  assumes "0 \<le> y" "y < int (length fronts)" "0 \<le> x" "x < int (length rears)"
  shows "combos_at (combos_table fronts rears) y x = Inr (gear_ratio (fronts ! nat y) (rears ! nat x))"
  using assms by (simp add: combos_at_def combos_table_def py_get_def Let_def)

lemma find_next_unit_step:
  assumes "find_next combos cy cx fy fx = Inr c" and "(cy, cx) \<noteq> (fy, fx)"
  shows "unit_step (cy, cx) c" and "Suc (remaining c (fy, fx)) = remaining (cy, cx) (fy, fx)"
  using assms
  by (auto simp: find_next_def remaining_def unit_step_def Let_def split: if_splits sum.splits)

lemma find_next_in_grid:
  assumes "in_grid fronts rears (cy, cx)" and "in_grid fronts rears (fy, fx)"
  shows "\<exists>c. find_next (combos_table fronts rears) cy cx fy fx = Inr c \<and> in_grid fronts rears c"
  using assms
  by (auto simp: find_next_def in_grid_def combos_at_table Let_def)

lemma shift_loop_path:
  "shift_loop combos goal combo sequence = Inr res \<Longrightarrow>
     \<exists>path. res = sequence @ path \<and> length path = remaining combo goal \<and>
       successively unit_step (combo # path) \<and>
       successively (step_to combos goal) (combo # path) \<and> last (combo # path) = goal \<and>
       (\<forall>c \<in> set path. remaining c goal < remaining combo goal) \<and> distinct (combo # path)"
proof (induction combos goal combo sequence arbitrary: res rule: shift_loop.induct)
  case (1 combos goal combo sequence)
  show ?case
  proof (cases "combo = goal")
    case True
    with "1.prems" have "res = sequence" by (simp add: shift_loop.simps)
    with True show ?thesis by (simp add: remaining_def)
  next
    case False
    with "1.prems" obtain c' where
      fn: "find_next combos (fst combo) (snd combo) (fst goal) (snd goal) = Inr c'" and
      sl: "shift_loop combos goal c' (sequence @ [c']) = Inr res"
      by (auto simp: shift_loop.simps[of combos goal combo] split: sum.splits)
    from "1.IH"[OF False fn sl] obtain path where
      p: "res = (sequence @ [c']) @ path" "length path = remaining c' goal"
         "successively unit_step (c' # path)" "last (c' # path) = goal"
         "\<forall>c \<in> set path. remaining c goal < remaining c' goal" "distinct (c' # path)"
         "successively (step_to combos goal) (c' # path)"
      by blast
    from False have ne: "(fst combo, snd combo) \<noteq> (fst goal, snd goal)"
      by (simp add: prod_eq_iff)
    from find_next_unit_step[OF fn ne] have
      us: "unit_step combo c'" and rm: "Suc (remaining c' goal) = remaining combo goal"
      by simp_all
    have "res = sequence @ (c' # path)" using p(1) by simp
    moreover have "length (c' # path) = remaining combo goal" using p(2) rm by simp
    moreover have "successively unit_step (combo # c' # path)" using us p(3) by simp
    moreover have "successively (step_to combos goal) (combo # c' # path)"
      using fn p(7) by (simp add: step_to_def)
    moreover have "last (combo # c' # path) = goal" using p(4) by simp
    moreover have "\<forall>c \<in> set (c' # path). remaining c goal < remaining combo goal"
      using p(5) rm by auto
    moreover have "distinct (combo # c' # path)"
      using p(5,6) rm by auto
    ultimately show ?thesis by blast
  qed
qed

lemma shift_loop_total:
  "in_grid fronts rears combo \<Longrightarrow> in_grid fronts rears goal \<Longrightarrow>
     \<exists>res. shift_loop (combos_table fronts rears) goal combo sequence = Inr res"
proof (induction "remaining combo goal" arbitrary: combo sequence)
  case 0
  then have "combo = goal" by (auto simp: remaining_def prod_eq_iff)
  then show ?case by (simp add: shift_loop.simps)
next
  case (Suc n)
  then have ne: "combo \<noteq> goal" by (auto simp: remaining_def)
  from find_next_in_grid[of fronts rears "fst combo" "snd combo" "fst goal" "snd goal"] Suc.prems
  obtain c' where fn: "find_next (combos_table fronts rears) (fst combo) (snd combo) (fst goal) (snd goal) = Inr c'"
    and g: "in_grid fronts rears c'" by auto
  from ne have "(fst combo, snd combo) \<noteq> (fst goal, snd goal)" by (simp add: prod_eq_iff)
  from find_next_unit_step(2)[OF fn this] Suc.hyps(2) have "n = remaining c' goal" by simp
  from Suc.hyps(1)[OF this g Suc.prems(2)] obtain res where
    "shift_loop (combos_table fronts rears) goal c' (sequence @ [c']) = Inr res" by blast
  with ne fn show ?case by (simp add: shift_loop.simps[of _ goal combo])
qed

lemma combo_at_in_grid:
  "in_grid fronts rears c \<Longrightarrow> combo_at fronts rears c = Inr (fronts ! nat (fst c), rears ! nat (snd c))"
  by (simp add: combo_at_def py_get_def in_grid_def)

section \<open>Properties of the two searches\<close>

lemma fold_nested:
  "fold (\<lambda>a. fold (f a) ys) xs s = fold (\<lambda>(a, b). f a b) (List.product xs ys) s"
  by (induction xs arbitrary: s) (simp_all add: fold_map comp_def)

lemma fold_invariant:
  assumes "P s" and "\<And>x s. x \<in> set xs \<Longrightarrow> P s \<Longrightarrow> P (f x s)"
  shows "P (fold f xs s)"
  using assms by (induction xs arbitrary: s) simp_all

lemma fold_related:
  assumes "R s t" and "\<And>x s t. x \<in> set xs \<Longrightarrow> R s t \<Longrightarrow> R (f x s) (g x t)"
  shows "R (fold f xs s) (fold g xs t)"
  using assms by (induction xs arbitrary: s t) simp_all

lemma enumerate_from_mem:
  "(k, x) \<in> set (enumerate_from n xs) \<longleftrightarrow>
     n \<le> k \<and> k < n + int (length xs) \<and> x = xs ! nat (k - n)"
proof (induction xs arbitrary: n)
  case Nil
  then show ?case by auto
next
  case (Cons a xs)
  have "nat (k - n) = Suc (nat (k - (n + 1)))" if "n + 1 \<le> k"
    using that by linarith
  then show ?case using Cons.IH[of "n + 1"] by (auto simp: nth_Cons')
qed

lemma map_snd_enumerate_from: "map snd (enumerate_from n xs) = xs"
  by (induction xs arbitrary: n) simp_all

lemma cells_mem:
  "((i, f), (j, r)) \<in> set (cells fronts rears) \<longleftrightarrow>
     in_grid fronts rears (i, j) \<and> f = fronts ! nat i \<and> r = rears ! nat j"
  by (auto simp: cells_def enumerate_from_mem in_grid_def)

lemma scan_cells:
  "scan fronts rears ratio ifront irear =
     fold (\<lambda>(fe, re). scan_body ratio ifront irear fe re) (cells fronts rears) (999999, None, None)"
  by (simp add: scan_def cells_def fold_nested)

lemma product_map:
  "List.product (map f xs) (map g ys) = map (map_prod f g) (List.product xs ys)"
  by (induction xs) (simp_all add: comp_def)

lemma product_cells: "List.product fronts rears = map (map_prod snd snd) (cells fronts rears)"
  unfolding cells_def product_map[symmetric] map_snd_enumerate_from ..

lemma compute_combo_cells:
  "compute_combo fronts rears ratio =
     (if ratio \<le> 0 then Inl ValueError
      else Inr (snd (fold (\<lambda>(fe, re). combo_body ratio (snd fe) (snd re))
                       (cells fronts rears) (999999, (0, 0)))))"
  by (simp add: compute_combo_def fold_nested product_cells fold_map comp_def case_prod_unfold)

lemma scan_inv_scan: "scan_inv fronts rears ratio ifront irear (scan fronts rears ratio ifront irear)"
  unfolding scan_cells
proof (rule fold_invariant)
  show "scan_inv fronts rears ratio ifront irear (999999, None, None)"
    by (simp add: scan_inv_def origin_of_def goal_of_def)
next
  fix x :: "(int \<times> int) \<times> (int \<times> int)" and s :: scan_state
  assume x: "x \<in> set (cells fronts rears)" and s: "scan_inv fronts rears ratio ifront irear s"
  obtain i f j r where xe: "x = ((i, f), (j, r))" by (metis surj_pair)
  obtain md og gl where se: "s = (md, og, gl)" by (metis surj_pair)
  from x xe have c: "in_grid fronts rears (i, j)" "f = fronts ! nat i" "r = rears ! nat j"
    by (simp_all add: cells_mem)
  show "scan_inv fronts rears ratio ifront irear
          ((case x of (fe, re) \<Rightarrow> scan_body ratio ifront irear fe re) s)"
    using s c unfolding xe se
    by (auto simp: scan_inv_def scan_body_def origin_of_def goal_of_def Let_def split: option.splits)
qed

lemma scan_origin_found:
  assumes "ifront \<in> set fronts" and "irear \<in> set rears"
  shows "origin_of (scan fronts rears ratio ifront irear) \<noteq> None"
proof -
  have step: "origin_of (fold (\<lambda>(fe, re). scan_body ratio ifront irear fe re) cs s) \<noteq> None"
    if "origin_of s \<noteq> None \<or> (\<exists>c \<in> set cs. snd (fst c) = ifront \<and> snd (snd c) = irear)"
    for cs s
    using that
  proof (induction cs arbitrary: s)
    case Nil
    then show ?case by simp
  next
    case (Cons c cs)
    obtain i f j r where ce: "c = ((i, f), (j, r))" by (metis surj_pair)
    obtain md og gl where se: "s = (md, og, gl)" by (metis surj_pair)
    have "origin_of (scan_body ratio ifront irear (i, f) (j, r) (md, og, gl)) \<noteq> None \<or>
          (\<exists>c \<in> set cs. snd (fst c) = ifront \<and> snd (snd c) = irear)"
      using Cons.prems unfolding ce se
      by (auto simp: scan_body_def origin_of_def Let_def)
    from Cons.IH[OF this] show ?case by (simp add: ce se)
  qed
  from assms obtain a b where "a < length fronts" "fronts ! a = ifront" "b < length rears" "rears ! b = irear"
    by (auto simp: in_set_conv_nth)
  then have "((int a, ifront), (int b, irear)) \<in> set (cells fronts rears)"
    by (simp add: cells_mem in_grid_def)
  then have "\<exists>c \<in> set (cells fronts rears). snd (fst c) = ifront \<and> snd (snd c) = irear"
    by force
  then show ?thesis unfolding scan_cells by (intro step) simp
qed

text \<open>The two searches accept the same candidates in the same order.\<close>

lemma scan_compute_combo:
  assumes "0 < ratio"
  shows "compute_combo fronts rears ratio =
     Inr (case goal_of (scan fronts rears ratio ifront irear) of
            None \<Rightarrow> (0, 0)
          | Some c \<Rightarrow> (fronts ! nat (fst c), rears ! nat (snd c)))"
proof -
  let ?R = "\<lambda>(s :: scan_state) (t :: rat \<times> (int \<times> int)). fst t = fst s \<and>
      snd t = (case goal_of s of None \<Rightarrow> (0, 0) | Some c \<Rightarrow> (fronts ! nat (fst c), rears ! nat (snd c)))"
  have "?R (fold (\<lambda>(fe, re). scan_body ratio ifront irear fe re) (cells fronts rears) (999999, None, None))
           (fold (\<lambda>(fe, re). combo_body ratio (snd fe) (snd re)) (cells fronts rears) (999999, (0, 0)))"
  proof (rule fold_related)
    show "?R (999999, None, None) (999999, (0, 0))" by (simp add: goal_of_def)
  next
    fix x :: "(int \<times> int) \<times> (int \<times> int)" and s :: scan_state and t :: "rat \<times> (int \<times> int)"
    assume x: "x \<in> set (cells fronts rears)" and r: "?R s t"
    obtain i f j r where xe: "x = ((i, f), (j, r))" by (metis surj_pair)
    obtain md og gl where se: "s = (md, og, gl)" by (metis surj_pair)
    obtain md' cb where te: "t = (md', cb)" by (metis surj_pair)
    from x xe have c: "f = fronts ! nat i" "r = rears ! nat j" by (simp_all add: cells_mem)
    show "?R ((case x of (fe, re) \<Rightarrow> scan_body ratio ifront irear fe re) s)
             ((case x of (fe, re) \<Rightarrow> combo_body ratio (snd fe) (snd re)) t)"
      using r c unfolding xe se te
      by (auto simp: scan_body_def combo_body_def goal_of_def Let_def)
  qed
  with assms show ?thesis by (simp add: compute_combo_cells scan_cells)
qed

lemma scan_no_candidate:
  assumes "\<forall>front \<in> set fronts. \<forall>rear \<in> set rears. ratio < gear_ratio front rear"
  shows "goal_of (scan fronts rears ratio ifront irear) = None"
  unfolding scan_cells
proof (rule fold_invariant)
  show "goal_of (999999, None, None) = None" by (simp add: goal_of_def)
next
  fix x :: "(int \<times> int) \<times> (int \<times> int)" and s :: scan_state
  assume x: "x \<in> set (cells fronts rears)" and s: "goal_of s = None"
  obtain i f j r where xe: "x = ((i, f), (j, r))" by (metis surj_pair)
  obtain md og gl where se: "s = (md, og, gl)" by (metis surj_pair)
  from x xe have "f \<in> set fronts" "r \<in> set rears"
    by (auto simp: cells_mem in_grid_def)
  with assms have "ratio < gear_ratio f r" by blast
  then have "float_sub ratio (gear_ratio f r) < 0" by (simp add: float_sub_neg_iff)
  with s show "goal_of ((case x of (fe, re) \<Rightarrow> scan_body ratio ifront irear fe re) s) = None"
    unfolding xe se by (simp add: scan_body_def goal_of_def Let_def)
qed

lemma combo_inv_step:
  assumes "combo_inv ratio seen st"
  shows "combo_inv ratio (seen @ [(front, rear)]) (combo_body ratio front rear st)"
proof -
  obtain md cb where st: "st = (md, cb)" by (metis surj_pair)
  let ?d = "\<lambda>c. float_sub ratio (gear_ratio (fst c) (snd c))"
  let ?dn = "float_sub ratio (gear_ratio front rear)"
  from assms st consider
    (none) "md = 999999" "cb = (0, 0)" "list_all (\<lambda>c. ?d c < 0 \<or> 999999 \<le> ?d c) seen"
  | (some) pre post where "md < 999999" "md = ?d cb" "0 \<le> md" "seen = pre @ [cb] @ post"
      "list_all (\<lambda>c. ?d c < 0 \<or> md < ?d c) pre" "list_all (\<lambda>c. ?d c < 0 \<or> md \<le> ?d c) post"
    by (auto simp: combo_inv_def Let_def)
  then show ?thesis
  proof cases
    case none
    show ?thesis
    proof (cases "0 \<le> ?dn \<and> ?dn < md")
      case True
      have "list_all (\<lambda>c. ?d c < 0 \<or> ?dn < ?d c) seen"
        using none(3) True none(1) by (auto simp: list_all_iff)
      then have "\<exists>pre post. seen @ [(front, rear)] = pre @ [(front, rear)] @ post \<and>
            list_all (\<lambda>c. ?d c < 0 \<or> ?dn < ?d c) pre \<and>
            list_all (\<lambda>c. ?d c < 0 \<or> ?dn \<le> ?d c) post"
        by (intro exI[of _ seen] exI[of _ "[]"]) simp
      with True none(1) show ?thesis
        unfolding st by (simp add: combo_inv_def combo_body_def Let_def)
    next
      case False
      with none show ?thesis
        unfolding st by (auto simp: combo_inv_def combo_body_def Let_def)
    qed
  next
    case some
    show ?thesis
    proof (cases "0 \<le> ?dn \<and> ?dn < md")
      case True
      have "list_all (\<lambda>c. ?d c < 0 \<or> ?dn < ?d c) seen"
        using some True by (auto simp: list_all_iff)
      then have "\<exists>pre post. seen @ [(front, rear)] = pre @ [(front, rear)] @ post \<and>
            list_all (\<lambda>c. ?d c < 0 \<or> ?dn < ?d c) pre \<and>
            list_all (\<lambda>c. ?d c < 0 \<or> ?dn \<le> ?d c) post"
        by (intro exI[of _ seen] exI[of _ "[]"]) simp
      with True some(1) show ?thesis
        unfolding st by (simp add: combo_inv_def combo_body_def Let_def)
    next
      case False
      have "seen @ [(front, rear)] = pre @ [cb] @ (post @ [(front, rear)])"
        using some(4) by simp
      moreover have "list_all (\<lambda>c. ?d c < 0 \<or> md \<le> ?d c) (post @ [(front, rear)])"
        using some(6) False by auto
      ultimately have "\<exists>pre post. seen @ [(front, rear)] = pre @ [cb] @ post \<and>
            list_all (\<lambda>c. ?d c < 0 \<or> md < ?d c) pre \<and>
            list_all (\<lambda>c. ?d c < 0 \<or> md \<le> ?d c) post"
        using some(5) by blast
      with False some(1,2,3) show ?thesis
        unfolding st by (auto simp: combo_inv_def combo_body_def Let_def)
    qed
  qed
qed

lemma combo_inv_fold:
  "combo_inv ratio seen st \<Longrightarrow>
     combo_inv ratio (seen @ cs) (fold (\<lambda>c. combo_body ratio (fst c) (snd c)) cs st)"
proof (induction cs arbitrary: seen st)
  case Nil
  then show ?case by simp
next
  case (Cons c cs)
  from combo_inv_step[OF Cons.prems, of "fst c" "snd c"]
  have "combo_inv ratio (seen @ [c]) (combo_body ratio (fst c) (snd c) st)" by simp
  from Cons.IH[OF this] show ?case by simp
qed

lemma compute_combo_inv:
  assumes "0 < ratio"
  shows "\<exists>st. compute_combo fronts rears ratio = Inr (snd st) \<and>
           combo_inv ratio (List.product fronts rears) st"
proof -
  have "combo_inv ratio [] (999999, (0, 0))" by (simp add: combo_inv_def)
  from combo_inv_fold[OF this, of "List.product fronts rears"]
  have "combo_inv ratio (List.product fronts rears)
          (fold (\<lambda>c. combo_body ratio (fst c) (snd c)) (List.product fronts rears) (999999, (0, 0)))"
    by simp
  moreover have "compute_combo fronts rears ratio =
      Inr (snd (fold (\<lambda>c. combo_body ratio (fst c) (snd c)) (List.product fronts rears) (999999, (0, 0))))"
    using assms by (simp add: compute_combo_def fold_nested case_prod_unfold)
  ultimately show ?thesis by blast
qed

text \<open>
  Where some combination has a ratio that is at most the target and a delta below the
  initial \<^verbatim>\<open>min_delta\<close>, \<^verbatim>\<open>compute_combo\<close> returns a combination of the cog set whose
  ratio is at most the target and whose delta is the least among the combinations with a
  ratio that is at most the target; it is the first one with that delta.
\<close>

lemma compute_combo_closest:
  assumes "0 < ratio" and "front \<in> set fronts" and "rear \<in> set rears"
    and "gear_ratio front rear \<le> ratio" and "float_sub ratio (gear_ratio front rear) < 999999"
  shows "\<exists>f r. compute_combo fronts rears ratio = Inr (f, r) \<and> f \<in> set fronts \<and> r \<in> set rears \<and>
           gear_ratio f r \<le> ratio \<and>
           (\<forall>f' \<in> set fronts. \<forall>r' \<in> set rears.
              gear_ratio f' r' \<le> ratio \<longrightarrow>
              float_sub ratio (gear_ratio f r) \<le> float_sub ratio (gear_ratio f' r')) \<and>
           (\<exists>pre post. List.product fronts rears = pre @ (f, r) # post \<and>
              (\<forall>c \<in> set pre. gear_ratio (fst c) (snd c) \<le> ratio \<longrightarrow>
                 float_sub ratio (gear_ratio f r) < float_sub ratio (gear_ratio (fst c) (snd c))))"
proof -
  let ?d = "\<lambda>c. float_sub ratio (gear_ratio (fst c) (snd c))"
  from compute_combo_inv[OF assms(1), of fronts rears] obtain st where
    r0: "compute_combo fronts rears ratio = Inr (snd st)" and
    i0: "combo_inv ratio (List.product fronts rears) st" by blast
  obtain md cb where st: "st = (md, cb)" by (metis surj_pair)
  from r0 i0 st have
    r: "compute_combo fronts rears ratio = Inr cb" and
    i: "combo_inv ratio (List.product fronts rears) (md, cb)" by simp_all
  have mem: "(front, rear) \<in> set (List.product fronts rears)" using assms(2,3) by simp
  have "\<not> (?d (front, rear) < 0 \<or> 999999 \<le> ?d (front, rear))"
    using assms(4,5) by (simp add: float_sub_neg_iff)
  with mem have "\<not> list_all (\<lambda>c. ?d c < 0 \<or> 999999 \<le> ?d c) (List.product fronts rears)"
    unfolding list_all_iff by blast
  with i obtain pre post where
    s: "md = ?d cb" "0 \<le> md" "List.product fronts rears = pre @ [cb] @ post"
       "list_all (\<lambda>c. ?d c < 0 \<or> md < ?d c) pre" "list_all (\<lambda>c. ?d c < 0 \<or> md \<le> ?d c) post"
    by (auto simp: combo_inv_def Let_def)
  from s(3) have "cb \<in> set (List.product fronts rears)" by simp
  then have cbm: "fst cb \<in> set fronts" "snd cb \<in> set rears" by auto
  have best: "?d cb \<le> ?d (f', r')"
    if "f' \<in> set fronts" "r' \<in> set rears" "gear_ratio f' r' \<le> ratio" for f' r'
  proof -
    from that(1,2) have "(f', r') \<in> set (pre @ [cb] @ post)" unfolding s(3)[symmetric] by simp
    then have "?d (f', r') < 0 \<or> md \<le> ?d (f', r')"
      using s(4,5) s(1) by (auto simp: list_all_iff)
    moreover from that(3) have "\<not> ?d (f', r') < 0" by (simp add: float_sub_neg_iff)
    ultimately show ?thesis using s(1) by simp
  qed
  have first: "\<forall>c \<in> set pre. gear_ratio (fst c) (snd c) \<le> ratio \<longrightarrow> ?d cb < ?d c"
    using s(1,4) by (auto simp: list_all_iff float_sub_neg_iff)
  have "List.product fronts rears = pre @ (fst cb, snd cb) # post" using s(3) by simp
  with first have "\<exists>pre post. List.product fronts rears = pre @ (fst cb, snd cb) # post \<and>
      (\<forall>c \<in> set pre. gear_ratio (fst c) (snd c) \<le> ratio \<longrightarrow>
         float_sub ratio (gear_ratio (fst cb) (snd cb)) < float_sub ratio (gear_ratio (fst c) (snd c)))"
    by simp blast
  moreover have "compute_combo fronts rears ratio = Inr (fst cb, snd cb)" using r by simp
  moreover have "gear_ratio (fst cb) (snd cb) \<le> ratio"
    using s(1,2) float_sub_nonneg_iff[of ratio "gear_ratio (fst cb) (snd cb)"] by simp
  moreover have "\<forall>f' \<in> set fronts. \<forall>r' \<in> set rears. gear_ratio f' r' \<le> ratio \<longrightarrow>
      float_sub ratio (gear_ratio (fst cb) (snd cb)) \<le> float_sub ratio (gear_ratio f' r')"
    using best by simp
  ultimately show ?thesis using cbm by blast
qed

text \<open>Where every ratio exceeds the target, the initial \<open>(0, 0)\<close> is returned.\<close>

lemma compute_combo_sentinel:
  assumes "0 < ratio"
    and "\<forall>front \<in> set fronts. \<forall>rear \<in> set rears. ratio < gear_ratio front rear"
  shows "compute_combo fronts rears ratio = Inr (0, 0)"
proof -
  from scan_no_candidate[OF assms(2), of 0 0]
  have "goal_of (scan fronts rears ratio 0 0) = None" .
  with scan_compute_combo[OF assms(1), of fronts rears 0 0] show ?thesis by simp
qed

section \<open>Properties of \<^verbatim>\<open>generate_shifts\<close>\<close>

lemma generate_shifts_unfold:
  "generate_shifts fronts rears ratio ifront irear =
     (if ratio \<le> 0 then Inl ValueError
      else if ifront \<notin> set fronts then Inl UnboundLocalError
      else if irear \<notin> set rears then Inl UnboundLocalError
      else if origin_of (scan fronts rears ratio ifront irear) = goal_of (scan fronts rears ratio ifront irear)
        then Inr []
      else
        (case (origin_of (scan fronts rears ratio ifront irear), goal_of (scan fronts rears ratio ifront irear)) of
           (Some origin', Some goal') \<Rightarrow>
             (case find_next (combos_table fronts rears)
                     (fst origin') (snd origin') (fst goal') (snd goal') of
                Inl e \<Rightarrow> Inl e
              | Inr combo \<Rightarrow>
                  shift_loop (combos_table fronts rears) goal' combo [origin', combo])
         | _ \<Rightarrow> Inl TypeError))"
  by (simp add: generate_shifts_def origin_of_def goal_of_def split: prod.splits)

text \<open>The shape of every sequence the function returns.\<close>

lemma generate_shifts_path:
  assumes "generate_shifts fronts rears ratio ifront irear = Inr seq"
  shows "\<exists>origin' goal'.
           origin_of (scan fronts rears ratio ifront irear) = Some origin' \<and>
           goal_of (scan fronts rears ratio ifront irear) = Some goal' \<and>
           in_grid fronts rears origin' \<and> in_grid fronts rears goal' \<and>
           (if origin' = goal' then seq = []
            else hd seq = origin' \<and> last seq = goal' \<and> length seq = Suc (remaining origin' goal') \<and>
              successively unit_step seq \<and>
              successively (step_to (combos_table fronts rears) goal') seq \<and> distinct seq)"
proof -
  let ?sc = "scan fronts rears ratio ifront irear"
  let ?T = "combos_table fronts rears"
  from assms have v: "0 < ratio" "ifront \<in> set fronts" "irear \<in> set rears"
    by (auto simp: generate_shifts_unfold split: if_splits)
  from scan_origin_found[OF v(2,3)] obtain og where og: "origin_of ?sc = Some og" by blast
  show ?thesis
  proof (cases "goal_of ?sc")
    case None
    with assms v og show ?thesis by (simp add: generate_shifts_unfold)
  next
    case (Some gl)
    from scan_inv_scan[of fronts rears ratio ifront irear] og Some
    have grid: "in_grid fronts rears og" "in_grid fronts rears gl"
      by (simp_all add: scan_inv_def)
    show ?thesis
    proof (cases "og = gl")
      case True
      with assms v og Some grid show ?thesis by (simp add: generate_shifts_unfold)
    next
      case False
      with assms v og Some obtain combo where
        fn: "find_next ?T (fst og) (snd og) (fst gl) (snd gl) = Inr combo" and
        sl: "shift_loop ?T gl combo [og, combo] = Inr seq"
        by (auto simp: generate_shifts_unfold split: sum.splits)
      from False have ne: "(fst og, snd og) \<noteq> (fst gl, snd gl)" by (simp add: prod_eq_iff)
      from find_next_unit_step[OF fn ne] have
        us: "unit_step og combo" and rm: "Suc (remaining combo gl) = remaining og gl"
        by simp_all
      from shift_loop_path[OF sl] obtain path where
        p: "seq = [og, combo] @ path" "length path = remaining combo gl"
           "successively unit_step (combo # path)"
           "successively (step_to ?T gl) (combo # path)" "last (combo # path) = gl"
           "\<forall>c \<in> set path. remaining c gl < remaining combo gl" "distinct (combo # path)"
        by blast
      have "hd seq = og" using p(1) by simp
      moreover have "last seq = gl" using p(1,5) by simp
      moreover have "length seq = Suc (remaining og gl)" using p(1,2) rm by simp
      moreover have "successively unit_step seq" using p(1,3) us by simp
      moreover have "successively (step_to ?T gl) seq" using p(1,4) fn by (simp add: step_to_def)
      moreover have "distinct seq" using p(1,6,7) rm by auto
      ultimately show ?thesis using og Some grid False by simp
    qed
  qed
qed

text \<open>A valid call with a goal returns a sequence.\<close>

lemma generate_shifts_total:
  assumes "0 < ratio" and "ifront \<in> set fronts" and "irear \<in> set rears"
    and "goal_of (scan fronts rears ratio ifront irear) = Some goal'"
  shows "\<exists>seq. generate_shifts fronts rears ratio ifront irear = Inr seq"
proof -
  let ?sc = "scan fronts rears ratio ifront irear"
  let ?T = "combos_table fronts rears"
  from scan_origin_found[OF assms(2,3)] obtain og where og: "origin_of ?sc = Some og" by blast
  from scan_inv_scan[of fronts rears ratio ifront irear] og assms(4)
  have grid: "in_grid fronts rears og" "in_grid fronts rears goal'"
    by (simp_all add: scan_inv_def)
  show ?thesis
  proof (cases "og = goal'")
    case True
    with assms og show ?thesis by (simp add: generate_shifts_unfold)
  next
    case False
    from find_next_in_grid[of fronts rears "fst og" "snd og" "fst goal'" "snd goal'"] grid
    obtain combo where fn: "find_next ?T (fst og) (snd og) (fst goal') (snd goal') = Inr combo"
      and cg: "in_grid fronts rears combo" by auto
    from shift_loop_total[OF cg grid(2)] obtain res where
      "shift_loop ?T goal' combo [og, combo] = Inr res" by blast
    with assms og False fn show ?thesis by (simp add: generate_shifts_unfold)
  qed
qed

lemma in_grid_remaining:
  assumes "in_grid fronts rears a" and "in_grid fronts rears b"
  shows "remaining a b \<le> (length fronts - 1) + (length rears - 1)"
  using assms by (auto simp: in_grid_def remaining_def)

lemma successively_nth:
  "successively P xs \<Longrightarrow> Suc i < length xs \<Longrightarrow> P (xs ! i) (xs ! Suc i)"
  by (simp add: successively_conv_nth)

text \<open>The two validations at the head of \<^verbatim>\<open>generate_shifts\<close> and of \<^verbatim>\<open>compute_combo\<close>.\<close>

lemma generate_shifts_invalid_ratio:
  "ratio \<le> 0 \<Longrightarrow> generate_shifts fronts rears ratio ifront irear = Inl ValueError"
  by (simp add: generate_shifts_def)

lemma compute_combo_invalid_ratio:
  "ratio \<le> 0 \<Longrightarrow> compute_combo fronts rears ratio = Inl ValueError"
  by (simp add: compute_combo_def)

lemma generate_shifts_invalid_origin:
  "0 < ratio \<Longrightarrow> ifront \<notin> set fronts \<or> irear \<notin> set rears \<Longrightarrow>
     generate_shifts fronts rears ratio ifront irear = Inl UnboundLocalError"
  by (auto simp: generate_shifts_def)

section \<open>Worked examples\<close>

text \<open>
  The ratios of the configured table, as the doubles that \<^verbatim>\<open>front / float( rear )\<close>
  computes. Three of the eight quotients are doubles themselves; \<open>30 / 28\<close> rounds down,
  to a double below \<open>15 / 14\<close>.
\<close>

lemma gear_ratio_default:
  "gear_ratio 38 28 = 3056014032858551 / 2251799813685248"
  "gear_ratio 38 23 = 7440729819133863 / 4503599627370496"
  "gear_ratio 38 19 = 2"
  "gear_ratio 38 16 = 19 / 8"
  "gear_ratio 30 28 = 4825285315039817 / 4503599627370496"
  "gear_ratio 30 23 = 2937130191763367 / 2251799813685248"
  "gear_ratio 30 19 = 3555473390029339 / 2251799813685248"
  "gear_ratio 30 16 = 15 / 8"
  by (simp_all add: gear_ratio_def float_eval)

lemma gear_ratio_30_28_rounds_down: "gear_ratio 30 28 < 15 / 14"
  by (simp add: gear_ratio_default)

text \<open>The double that Python reads \<^verbatim>\<open>1.9\<close> as.\<close>

lemma target_1_9: "round_double (19 / 10) = 4278419646001971 / 2251799813685248"
  by (simp add: float_eval)

lemma valid_cogs_default: "valid_cogs FRONT_COGS REAR_COGS"
  by (simp add: valid_cogs_def FRONT_COGS_def REAR_COGS_def)

lemma default_grid:
  "in_grid FRONT_COGS REAR_COGS (0, 0)" "in_grid FRONT_COGS REAR_COGS (1, 3)"
  "in_grid FRONT_COGS REAR_COGS (0, 1)" "in_grid FRONT_COGS REAR_COGS (1, 0)"
  by (simp_all add: in_grid_def FRONT_COGS_def REAR_COGS_def)

text \<open>The scan for the target 1.9 from the origin (38, 28), and for the target 1.5.\<close>

lemma scan_example:
  "scan FRONT_COGS REAR_COGS (round_double (19 / 10)) 38 28
     = (56294995342131 / 2251799813685248, Some (0, 0), Some (1, 3))"
  by (simp add: scan_def scan_body_def FRONT_COGS_def REAR_COGS_def
      gear_ratio_default target_1_9 float_sub_def round_double_def round_pos.simps
      round_half_even_def floor_rat_numeral_div Let_def)

lemma scan_example_1_5:
  "scan FRONT_COGS REAR_COGS (3 / 2) 38 28
     = (321685687669321 / 2251799813685248, Some (0, 0), Some (0, 0))"
  by (simp add: scan_def scan_body_def FRONT_COGS_def REAR_COGS_def
      gear_ratio_default float_sub_def round_double_def round_pos.simps
      round_half_even_def floor_rat_numeral_div Let_def)

lemma generate_shifts_example:
  "generate_shifts FRONT_COGS REAR_COGS (round_double (19 / 10)) 38 28
     = Inr [(0, 0), (1, 0), (1, 1), (1, 2), (1, 3)]"
proof -
  have t: "combos_table FRONT_COGS REAR_COGS =
      [[3056014032858551 / 2251799813685248, 7440729819133863 / 4503599627370496, 2, 19 / 8],
       [4825285315039817 / 4503599627370496, 2937130191763367 / 2251799813685248,
        3555473390029339 / 2251799813685248, 15 / 8]]"
    by (simp add: combos_table_def FRONT_COGS_def REAR_COGS_def gear_ratio_default)
  have m: "38 \<in> set FRONT_COGS" "28 \<in> set REAR_COGS"
    by (simp_all add: FRONT_COGS_def REAR_COGS_def)
  have p: "\<not> round_double (19 / 10) \<le> 0" by (simp add: target_1_9)
  show ?thesis
    unfolding generate_shifts_unfold scan_example t
    using m p
    by (simp add: origin_of_def goal_of_def find_next_def combos_at_def py_get_def shift_loop.simps)
qed

lemma compute_combo_example:
  "compute_combo FRONT_COGS REAR_COGS (round_double (19 / 10)) = Inr (30, 16)"
proof -
  have "0 < round_double (19 / 10)" by (simp add: target_1_9)
  from scan_compute_combo[OF this, of FRONT_COGS REAR_COGS 38 28]
  have "compute_combo FRONT_COGS REAR_COGS (round_double (19 / 10))
      = Inr (FRONT_COGS ! nat 1, REAR_COGS ! nat 3)"
    by (simp add: scan_example goal_of_def)
  also have "(FRONT_COGS ! nat 1, REAR_COGS ! nat 3) = (30, 16)"
    by (simp add: FRONT_COGS_def REAR_COGS_def)
  finally show ?thesis .
qed

text \<open>
  The smallest ratio of the configured table is the one of (30, 28). At a target that is
  this double, \<^verbatim>\<open>1.0714285714285714\<close>, the delta of (30, 28) is zero, the scan accepts
  it, and from the origin (38, 28) one shift of the front reaches it.
\<close>

lemma default_smallest_ratio:
  "list_all (\<lambda>front. list_all (\<lambda>rear. gear_ratio 30 28 \<le> gear_ratio front rear) REAR_COGS)
     FRONT_COGS"
  by (simp add: FRONT_COGS_def REAR_COGS_def gear_ratio_default)

lemma scan_example_smallest:
  "scan FRONT_COGS REAR_COGS (gear_ratio 30 28) 38 28 = (0, Some (0, 0), Some (1, 0))"
  by (simp add: scan_def scan_body_def FRONT_COGS_def REAR_COGS_def
      gear_ratio_default float_sub_def round_double_def round_pos.simps
      round_half_even_def floor_rat_numeral_div Let_def)

lemma generate_shifts_example_smallest:
  "generate_shifts FRONT_COGS REAR_COGS (gear_ratio 30 28) 38 28 = Inr [(0, 0), (1, 0)]"
proof -
  have m: "38 \<in> set FRONT_COGS" "28 \<in> set REAR_COGS"
    by (simp_all add: FRONT_COGS_def REAR_COGS_def)
  have p: "\<not> gear_ratio 30 28 \<le> 0" by (simp add: gear_ratio_default)
  show ?thesis
    unfolding generate_shifts_unfold scan_example_smallest
    using m p
    by (simp add: origin_of_def goal_of_def find_next_def shift_loop.simps)
qed

text \<open>No two ratios of the configured table are equal.\<close>

lemma default_table_distinct: "distinct (concat (combos_table FRONT_COGS REAR_COGS))"
  by (simp add: combos_table_def FRONT_COGS_def REAR_COGS_def gear_ratio_default)



section \<open>The claims\<close>

text \<open>
  Claim C5. For every valid call of \<^verbatim>\<open>generate_shifts\<close> (a valid cog set, a positive
  target ratio, origin tooth counts that are in the cog set) in which the coordinate of
  the origin equals the coordinate of the goal that the search finds, the function
  returns the empty sequence, as a result and not as an error.
\<close>

theorem generate_shifts_empty_at_goal:
  assumes "valid_cogs fronts rears" and "0 < ratio"
    and "ifront \<in> set fronts" and "irear \<in> set rears"
    and "origin_of (scan fronts rears ratio ifront irear) = goal_of (scan fronts rears ratio ifront irear)"
  shows "generate_shifts fronts rears ratio ifront irear = Inr []"
  using assms by (simp add: generate_shifts_unfold)

theorem generate_shifts_empty_at_goal_witness:
  "valid_cogs FRONT_COGS REAR_COGS \<and> (0 :: rat) < 3 / 2 \<and>
   38 \<in> set FRONT_COGS \<and> 28 \<in> set REAR_COGS \<and>
   origin_of (scan FRONT_COGS REAR_COGS (3 / 2) 38 28) = Some (0, 0) \<and>
   goal_of (scan FRONT_COGS REAR_COGS (3 / 2) 38 28) = Some (0, 0) \<and>
   generate_shifts FRONT_COGS REAR_COGS (3 / 2) 38 28 = Inr []"
proof -
  have h1: "valid_cogs FRONT_COGS REAR_COGS"
    by (simp add: valid_cogs_def FRONT_COGS_def REAR_COGS_def)
  have h2: "(0 :: rat) < 3 / 2" by simp
  have h3: "38 \<in> set FRONT_COGS" by (simp add: FRONT_COGS_def)
  have h4: "28 \<in> set REAR_COGS" by (simp add: REAR_COGS_def)
  have o: "origin_of (scan FRONT_COGS REAR_COGS (3 / 2) 38 28) = Some (0, 0)"
    by (simp add: scan_example_1_5 origin_of_def)
  have g: "goal_of (scan FRONT_COGS REAR_COGS (3 / 2) 38 28) = Some (0, 0)"
    by (simp add: scan_example_1_5 goal_of_def)
  from o g have h5: "origin_of (scan FRONT_COGS REAR_COGS (3 / 2) 38 28) =
      goal_of (scan FRONT_COGS REAR_COGS (3 / 2) 38 28)" by simp
  from generate_shifts_empty_at_goal[OF h1 h2 h3 h4 h5] h1 h2 h3 h4 o g show ?thesis by simp
qed

text \<open>
  Claim C6. In every sequence that \<^verbatim>\<open>generate_shifts\<close> returns, every two consecutive
  coordinates differ by exactly one on exactly one axis: no step stays where it is and no
  step is diagonal.
\<close>

theorem generate_shifts_single_axis_steps:
  assumes "valid_cogs fronts rears"
    and "generate_shifts fronts rears ratio ifront irear = Inr seq"
    and "Suc i < length seq"
  shows "unit_step (seq ! i) (seq ! Suc i)"
proof -
  from generate_shifts_path[OF assms(2)] have "successively unit_step seq"
    by (auto split: if_splits)
  then show ?thesis using assms(3) by (rule successively_nth)
qed

theorem generate_shifts_single_axis_steps_witness:
  "valid_cogs FRONT_COGS REAR_COGS \<and>
   generate_shifts FRONT_COGS REAR_COGS (round_double (19 / 10)) 38 28 = Inr [(0, 0), (1, 0), (1, 1), (1, 2), (1, 3)] \<and>
   Suc 0 < length [(0, 0), (1, 0), (1, 1), (1, 2), (1, 3) :: int \<times> int] \<and>
   unit_step ([(0, 0), (1, 0), (1, 1), (1, 2), (1, 3)] ! 0) ([(0, 0), (1, 0), (1, 1), (1, 2), (1, 3)] ! Suc 0)"
proof -
  have h3: "Suc 0 < length [(0, 0), (1, 0), (1, 1), (1, 2), (1, 3) :: int \<times> int]" by simp
  from generate_shifts_single_axis_steps[OF valid_cogs_default generate_shifts_example h3]
    valid_cogs_default generate_shifts_example h3
  show ?thesis by blast
qed

text \<open>
  Claim C7. For every valid call with origin coordinate \<open>(f0, r0)\<close> and goal coordinate
  \<open>(fg, rg)\<close> the function returns a sequence \<open>seq\<close>, so its loop terminates. The
  sequence starts as \<^verbatim>\<open>[ origin ]\<close> and every application of \<^verbatim>\<open>find_next\<close> appends
  one coordinate, the result of the step rule at the coordinate before it; so the
  number of applications is \<open>length seq - 1\<close> (none for the empty sequence), and it is
  at most \<open>\<bar>f0 - fg\<bar> + \<bar>r0 - rg\<bar>\<close>. No coordinate occurs twice in the sequence.
\<close>

theorem generate_shifts_terminates:
  assumes "valid_cogs fronts rears" and "0 < ratio"
    and "ifront \<in> set fronts" and "irear \<in> set rears"
    and "origin_of (scan fronts rears ratio ifront irear) = Some (f0, r0)"
    and "goal_of (scan fronts rears ratio ifront irear) = Some (fg, rg)"
  shows "\<exists>seq. generate_shifts fronts rears ratio ifront irear = Inr seq \<and>
           int (length seq - 1) \<le> \<bar>f0 - fg\<bar> + \<bar>r0 - rg\<bar> \<and>
           successively (step_to (combos_table fronts rears) (fg, rg)) seq \<and>
           distinct seq"
proof -
  from generate_shifts_total[OF assms(2,3,4,6)] obtain seq where
    s: "generate_shifts fronts rears ratio ifront irear = Inr seq" by blast
  from generate_shifts_path[OF s] assms(5,6) have
    "if (f0, r0) = (fg, rg) then seq = []
     else length seq = Suc (remaining (f0, r0) (fg, rg)) \<and>
       successively (step_to (combos_table fronts rears) (fg, rg)) seq \<and> distinct seq"
    by (auto split: if_splits)
  then have "int (length seq - 1) \<le> \<bar>f0 - fg\<bar> + \<bar>r0 - rg\<bar> \<and>
      successively (step_to (combos_table fronts rears) (fg, rg)) seq \<and> distinct seq"
    by (auto simp: remaining_def split: if_splits)
  with s show ?thesis by blast
qed

theorem generate_shifts_terminates_witness:
  "valid_cogs FRONT_COGS REAR_COGS \<and> 0 < round_double (19 / 10) \<and>
   38 \<in> set FRONT_COGS \<and> 28 \<in> set REAR_COGS \<and>
   origin_of (scan FRONT_COGS REAR_COGS (round_double (19 / 10)) 38 28) = Some (0, 0) \<and>
   goal_of (scan FRONT_COGS REAR_COGS (round_double (19 / 10)) 38 28) = Some (1, 3) \<and>
   (\<exists>seq. generate_shifts FRONT_COGS REAR_COGS (round_double (19 / 10)) 38 28 = Inr seq \<and>
      int (length seq - 1) \<le> \<bar>0 - 1\<bar> + \<bar>0 - 3\<bar> \<and>
      successively (step_to (combos_table FRONT_COGS REAR_COGS) (1, 3)) seq \<and>
      distinct seq)"
proof -
  have h2: "0 < round_double (19 / 10)" by (simp add: target_1_9)
  have h3: "38 \<in> set FRONT_COGS" by (simp add: FRONT_COGS_def)
  have h4: "28 \<in> set REAR_COGS" by (simp add: REAR_COGS_def)
  have o: "origin_of (scan FRONT_COGS REAR_COGS (round_double (19 / 10)) 38 28) = Some (0, 0)"
    by (simp add: scan_example origin_of_def)
  have g: "goal_of (scan FRONT_COGS REAR_COGS (round_double (19 / 10)) 38 28) = Some (1, 3)"
    by (simp add: scan_example goal_of_def)
  from generate_shifts_terminates[OF valid_cogs_default h2 h3 h4 o g]
    valid_cogs_default h2 h3 h4 o g
  show ?thesis by blast
qed

text \<open>
  Claim C3, as the specification states it: the length of the returned sequence is at most
  \<open>(F - 1) + (R - 1)\<close>. It fails on the configured cog set for the target ratio 1.9
  from the origin (38, 28): the sequence holds the origin and the four coordinates the
  four shifts reach, five coordinates where the bound is four.
\<close>

theorem generate_shifts_length_counterexample:
  "valid_cogs FRONT_COGS REAR_COGS \<and> 0 < round_double (19 / 10) \<and>
   38 \<in> set FRONT_COGS \<and> 28 \<in> set REAR_COGS \<and> gear_ratio 30 16 \<le> round_double (19 / 10) \<and>
   generate_shifts FRONT_COGS REAR_COGS (round_double (19 / 10)) 38 28 = Inr [(0, 0), (1, 0), (1, 1), (1, 2), (1, 3)] \<and>
   (length FRONT_COGS - 1) + (length REAR_COGS - 1) < length [(0, 0), (1, 0), (1, 1), (1, 2), (1, 3) :: int \<times> int]"
proof -
  have "0 < round_double (19 / 10)" "gear_ratio 30 16 \<le> round_double (19 / 10)"
    by (simp_all add: target_1_9 gear_ratio_default)
  moreover have "38 \<in> set FRONT_COGS" "28 \<in> set REAR_COGS"
    "(length FRONT_COGS - 1) + (length REAR_COGS - 1)
       < length [(0, 0), (1, 0), (1, 1), (1, 2), (1, 3) :: int \<times> int]"
    by (simp_all add: FRONT_COGS_def REAR_COGS_def)
  ultimately show ?thesis using valid_cogs_default generate_shifts_example by blast
qed

text \<open>
  Claim C3, amended: the sequence holds the origin as well as the coordinate every shift
  reaches. The number of shifts, \<open>length seq - 1\<close>, is at most \<open>(F - 1) + (R - 1)\<close>, and
  the length of the returned sequence is at most \<open>(F - 1) + (R - 1) + 1\<close>.
\<close>

theorem generate_shifts_length:
  assumes "valid_cogs fronts rears"
    and "generate_shifts fronts rears ratio ifront irear = Inr seq"
  shows "length seq - 1 \<le> (length fronts - 1) + (length rears - 1) \<and>
         length seq \<le> (length fronts - 1) + (length rears - 1) + 1"
proof -
  from generate_shifts_path[OF assms(2)] obtain origin' goal' where
    g: "in_grid fronts rears origin'" "in_grid fronts rears goal'" and
    s: "if origin' = goal' then seq = [] else length seq = Suc (remaining origin' goal')"
    by (auto split: if_splits)
  from in_grid_remaining[OF g] s show ?thesis by (auto split: if_splits)
qed

theorem generate_shifts_length_witness:
  "valid_cogs FRONT_COGS REAR_COGS \<and>
   generate_shifts FRONT_COGS REAR_COGS (round_double (19 / 10)) 38 28 = Inr [(0, 0), (1, 0), (1, 1), (1, 2), (1, 3)] \<and>
   length [(0, 0), (1, 0), (1, 1), (1, 2), (1, 3) :: int \<times> int] - 1
     \<le> (length FRONT_COGS - 1) + (length REAR_COGS - 1) \<and>
   length [(0, 0), (1, 0), (1, 1), (1, 2), (1, 3) :: int \<times> int]
     \<le> (length FRONT_COGS - 1) + (length REAR_COGS - 1) + 1"
  using generate_shifts_length[OF valid_cogs_default generate_shifts_example]
    valid_cogs_default generate_shifts_example
  by blast

text \<open>
  Claim C4. Whenever \<^verbatim>\<open>generate_shifts\<close> returns a sequence that is not empty, its
  last element is the goal coordinate of the scan, and reading that coordinate back
  through the cog lists gives exactly the tooth pair that \<^verbatim>\<open>compute_combo\<close> returns
  for the same target ratio. When the sequence is empty there is no last element: the
  origin is the goal, and the origin tooth pair is what \<^verbatim>\<open>compute_combo\<close> returns.
\<close>

theorem generate_shifts_ends_at_compute_combo:
  assumes "valid_cogs fronts rears"
    and "generate_shifts fronts rears ratio ifront irear = Inr seq"
  shows "if seq = [] then compute_combo fronts rears ratio = Inr (ifront, irear)
         else goal_of (scan fronts rears ratio ifront irear) = Some (last seq) \<and>
              combo_at fronts rears (last seq) = compute_combo fronts rears ratio"
proof -
  let ?sc = "scan fronts rears ratio ifront irear"
  from assms(2) have pos: "0 < ratio"
    by (auto simp: generate_shifts_unfold split: if_splits)
  from generate_shifts_path[OF assms(2)] obtain origin' goal' where
    og: "origin_of ?sc = Some origin'" "goal_of ?sc = Some goal'" and
    g: "in_grid fronts rears goal'" and
    s: "if origin' = goal' then seq = [] else last seq = goal' \<and> length seq = Suc (remaining origin' goal')"
    by (auto split: if_splits)
  from scan_compute_combo[OF pos, of fronts rears ifront irear] og(2)
  have cc: "compute_combo fronts rears ratio = Inr (fronts ! nat (fst goal'), rears ! nat (snd goal'))"
    by simp
  show ?thesis
  proof (cases "origin' = goal'")
    case True
    from scan_inv_scan[of fronts rears ratio ifront irear] og(1)
    have "fronts ! nat (fst origin') = ifront" "rears ! nat (snd origin') = irear"
      by (simp_all add: scan_inv_def)
    with True s cc show ?thesis by simp
  next
    case False
    with s have "seq \<noteq> []" "last seq = goal'" by auto
    with og(2) cc combo_at_in_grid[OF g] show ?thesis by simp
  qed
qed

theorem generate_shifts_ends_at_compute_combo_witness:
  "valid_cogs FRONT_COGS REAR_COGS \<and>
   generate_shifts FRONT_COGS REAR_COGS (round_double (19 / 10)) 38 28 = Inr [(0, 0), (1, 0), (1, 1), (1, 2), (1, 3)] \<and>
   goal_of (scan FRONT_COGS REAR_COGS (round_double (19 / 10)) 38 28) = Some (1, 3) \<and>
   combo_at FRONT_COGS REAR_COGS (1, 3) = Inr (30, 16) \<and>
   compute_combo FRONT_COGS REAR_COGS (round_double (19 / 10)) = Inr (30, 16)"
  using generate_shifts_ends_at_compute_combo[OF valid_cogs_default generate_shifts_example]
    valid_cogs_default generate_shifts_example compute_combo_example
  by simp

text \<open>
  Claim C9. For every cog set and every two grid coordinates \<open>current\<close> and \<open>goal\<close>
  that differ on both axes, the two positions at which \<^verbatim>\<open>find_next\<close> reads the table,
  \<open>(curr_y, next_x)\<close> and \<open>(next_y, curr_x)\<close>, are grid coordinates, both reads return
  the ratio of the table and not IndexError, and the coordinate that \<^verbatim>\<open>find_next\<close>
  returns is a grid coordinate: \<open>0 \<le> f < F\<close> and \<open>0 \<le> r < R\<close>.
\<close>

theorem find_next_stays_in_grid:
  assumes "valid_cogs fronts rears"
    and "in_grid fronts rears (curr_y, curr_x)" and "in_grid fronts rears (final_y, final_x)"
    and "curr_y \<noteq> final_y" and "curr_x \<noteq> final_x"
  shows "let next_y = (if curr_y < final_y then curr_y + 1 else curr_y - 1);
             next_x = (if curr_x < final_x then curr_x + 1 else curr_x - 1)
         in in_grid fronts rears (curr_y, next_x) \<and> in_grid fronts rears (next_y, curr_x) \<and>
            combos_at (combos_table fronts rears) curr_y next_x
              = Inr (gear_ratio (fronts ! nat curr_y) (rears ! nat next_x)) \<and>
            combos_at (combos_table fronts rears) next_y curr_x
              = Inr (gear_ratio (fronts ! nat next_y) (rears ! nat curr_x)) \<and>
            (\<exists>c. find_next (combos_table fronts rears) curr_y curr_x final_y final_x = Inr c \<and>
                 in_grid fronts rears c)"
proof -
  let ?ny = "if curr_y < final_y then curr_y + 1 else curr_y - 1"
  let ?nx = "if curr_x < final_x then curr_x + 1 else curr_x - 1"
  from assms(2-5) have gx: "in_grid fronts rears (curr_y, ?nx)" and gy: "in_grid fronts rears (?ny, curr_x)"
    by (auto simp: in_grid_def)
  from gx have lx: "combos_at (combos_table fronts rears) curr_y ?nx
      = Inr (gear_ratio (fronts ! nat curr_y) (rears ! nat ?nx))"
    by (intro combos_at_table) (simp_all add: in_grid_def)
  from gy have ly: "combos_at (combos_table fronts rears) ?ny curr_x
      = Inr (gear_ratio (fronts ! nat ?ny) (rears ! nat curr_x))"
    by (intro combos_at_table) (simp_all add: in_grid_def)
  from find_next_in_grid[OF assms(2,3)] gx gy lx ly show ?thesis
    unfolding Let_def by blast
qed

theorem find_next_stays_in_grid_witness:
  "valid_cogs FRONT_COGS REAR_COGS \<and>
   in_grid FRONT_COGS REAR_COGS (0, 0) \<and> in_grid FRONT_COGS REAR_COGS (1, 3) \<and>
   (0 :: int) \<noteq> 1 \<and> (0 :: int) \<noteq> 3 \<and>
   in_grid FRONT_COGS REAR_COGS (0, 1) \<and> in_grid FRONT_COGS REAR_COGS (1, 0) \<and>
   combos_at (combos_table FRONT_COGS REAR_COGS) 0 1 = Inr (gear_ratio 38 23) \<and>
   combos_at (combos_table FRONT_COGS REAR_COGS) 1 0 = Inr (gear_ratio 30 28) \<and>
   find_next (combos_table FRONT_COGS REAR_COGS) 0 0 1 3 = Inr (1, 0)"
proof -
  have n: "(0 :: int) \<noteq> 1" "(0 :: int) \<noteq> 3" by simp_all
  have f: "find_next (combos_table FRONT_COGS REAR_COGS) 0 0 1 3 = Inr (1, 0)"
    by (simp add: find_next_def combos_table_def combos_at_def py_get_def gear_ratio_default
        FRONT_COGS_def REAR_COGS_def)
  have r: "gear_ratio (FRONT_COGS ! nat 0) (REAR_COGS ! nat 1) = gear_ratio 38 23"
     "gear_ratio (FRONT_COGS ! nat 1) (REAR_COGS ! nat 0) = gear_ratio 30 28"
    by (simp_all add: FRONT_COGS_def REAR_COGS_def)
  from find_next_stays_in_grid[OF valid_cogs_default default_grid(1,2) n]
  show ?thesis using valid_cogs_default default_grid n f r by (simp add: Let_def)
qed

text \<open>
  Claim C10. For every target ratio that is positive and strictly below every ratio of
  the table (the doubles that the table holds; the smallest one of the configured table
  is the double of \<open>30 / 28\<close>), and every origin tooth pair of the cog set, the scan of
  \<^verbatim>\<open>generate_shifts\<close> accepts no candidate, so the goal stays \<^verbatim>\<open>None\<close>; the function
  then returns no sequence and raises neither of its two ValueErrors: stepping from the
  origin to the unset goal fails with TypeError.
\<close>

theorem generate_shifts_no_candidate:
  assumes "valid_cogs fronts rears" and "0 < ratio"
    and "list_all (\<lambda>front. list_all (\<lambda>rear. ratio < gear_ratio front rear) rears) fronts"
    and "ifront \<in> set fronts" and "irear \<in> set rears"
  shows "goal_of (scan fronts rears ratio ifront irear) = None \<and>
         generate_shifts fronts rears ratio ifront irear = Inl TypeError"
proof -
  from assms(3) have "\<forall>front \<in> set fronts. \<forall>rear \<in> set rears. ratio < gear_ratio front rear"
    by (simp add: list_all_iff)
  then have g: "goal_of (scan fronts rears ratio ifront irear) = None"
    by (rule scan_no_candidate)
  from scan_origin_found[OF assms(4,5)] obtain og where
    "origin_of (scan fronts rears ratio ifront irear) = Some og" by blast
  with g assms(2,4,5) show ?thesis by (simp add: generate_shifts_unfold)
qed

text \<open>
  The witness is the double next below the smallest ratio of the configured table,
  \<open>4825285315039816 / 2 ^ 52\<close>; at the smallest ratio itself the hypothesis fails and the
  scan accepts (30, 28), see \<open>generate_shifts_example_smallest\<close>.
\<close>

theorem generate_shifts_no_candidate_witness:
  "valid_cogs FRONT_COGS REAR_COGS \<and> (0 :: rat) < 4825285315039816 / 4503599627370496 \<and>
   list_all (\<lambda>front. list_all (\<lambda>rear. 4825285315039816 / 4503599627370496 < gear_ratio front rear)
     REAR_COGS) FRONT_COGS \<and>
   38 \<in> set FRONT_COGS \<and> 28 \<in> set REAR_COGS \<and>
   goal_of (scan FRONT_COGS REAR_COGS (4825285315039816 / 4503599627370496) 38 28) = None \<and>
   generate_shifts FRONT_COGS REAR_COGS (4825285315039816 / 4503599627370496) 38 28 = Inl TypeError"
proof -
  have h2: "(0 :: rat) < 4825285315039816 / 4503599627370496" by simp
  have h3: "list_all (\<lambda>front. list_all (\<lambda>rear. 4825285315039816 / 4503599627370496 < gear_ratio front rear)
      REAR_COGS) FRONT_COGS"
    by (simp add: gear_ratio_default FRONT_COGS_def REAR_COGS_def)
  have h4: "38 \<in> set FRONT_COGS" by (simp add: FRONT_COGS_def)
  have h5: "28 \<in> set REAR_COGS" by (simp add: REAR_COGS_def)
  from generate_shifts_no_candidate[OF valid_cogs_default h2 h3 h4 h5]
  show ?thesis using valid_cogs_default h2 h3 h4 h5 by blast
qed




text \<open>
  Claim C2 at the target ratio 2000000 on the configured cog set: every ratio of the
  table is at most the target, so the claim asks for the combination with the largest
  ratio; every delta is at least the initial \<^verbatim>\<open>min_delta = 999999.0\<close>, no candidate is
  accepted, and \<^verbatim>\<open>compute_combo\<close> returns \<open>(0, 0)\<close>, which is no combination of the cog
  set.
\<close>

theorem compute_combo_beyond_sentinel:
  "(0 :: rat) < 2000000 \<and>
   list_all (\<lambda>front. list_all (\<lambda>rear. gear_ratio front rear \<le> 2000000) REAR_COGS) FRONT_COGS \<and>
   compute_combo FRONT_COGS REAR_COGS 2000000 = Inr (0, 0) \<and>
   0 \<notin> set FRONT_COGS \<and> 0 \<notin> set REAR_COGS"
  by (simp add: compute_combo_def combo_body_def FRONT_COGS_def REAR_COGS_def gear_ratio_default
      float_sub_def round_double_def round_pos.simps round_half_even_def floor_rat_numeral_div Let_def)

text \<open>
  Claim C8 at origin tooth counts that are not in the configured cog set: the function
  fails before the scan, but with UnboundLocalError and not with the ValueError that
  its \<^verbatim>\<open>raise\<close> statement names. A target ratio that is not positive fails with
  ValueError.
\<close>

theorem generate_shifts_invalid_origin_error:
  "(0 :: rat) < 3 / 2 \<and> 39 \<notin> set FRONT_COGS \<and> 29 \<notin> set REAR_COGS \<and>
   generate_shifts FRONT_COGS REAR_COGS (3 / 2) 39 28 = Inl UnboundLocalError \<and>
   generate_shifts FRONT_COGS REAR_COGS (3 / 2) 38 29 = Inl UnboundLocalError \<and>
   generate_shifts FRONT_COGS REAR_COGS (3 / 2) 39 28 \<noteq> Inl ValueError \<and>
   generate_shifts FRONT_COGS REAR_COGS 0 38 28 = Inl ValueError"
  by (simp add: generate_shifts_def FRONT_COGS_def REAR_COGS_def)

end
